theory Spec2Isabelle
  imports Complex_Main
begin

section \<open>Python values, exceptions and strings\<close>

text \<open>
  Exceptions are values. \<open>ValueError\<close> and \<open>AttributeError\<close> are the two classes the
  modelled code raises or provokes itself; \<open>Exception cls msg\<close> is any other subclass of
  Python's \<open>Exception\<close>, named by its class (the agent and the language-model constructor
  are free to raise any of them).
\<close>

datatype exn =
    ValueError string
  | AttributeError string
  | Exception string string

text \<open>
  A Python \<open>str\<close> is modelled by its UTF-8 bytes, so that an ASCII string is a
  \<open>string\<close> whose characters are all below 128. \<open>str.lower()\<close> on an ASCII string
  moves \<open>A\<close>..\<open>Z\<close> (65..90) to \<open>a\<close>..\<open>z\<close> by setting bit 5 and leaves every other
  character alone. On a string with a character outside ASCII the result is the one of the
  interpreter's Unicode tables, which are not part of the repository: it is the parameter
  \<open>ulower\<close>.
\<close>

definition is_ascii :: "char \<Rightarrow> bool" where
  "is_ascii c = (of_char c < (128::nat))"

fun lower_ascii :: "char \<Rightarrow> char" where
  "lower_ascii (Char b0 b1 b2 b3 b4 b5 b6 b7) =
     (let n = of_char (Char b0 b1 b2 b3 b4 b5 b6 b7) :: nat
      in if 65 \<le> n \<and> n \<le> 90 then Char b0 b1 b2 b3 b4 True b6 b7
         else Char b0 b1 b2 b3 b4 b5 b6 b7)"

definition str_lower :: "(string \<Rightarrow> string) \<Rightarrow> string \<Rightarrow> string" where
  "str_lower ulower s = (if list_all is_ascii s then map lower_ascii s else ulower s)"


section \<open>The sequential chat workflow (\<open>workflows/flows/sequential_processing.py\<close>)\<close>

subsection \<open>Agents and the observable state of a run\<close>

text \<open>
  The agent passed to the flow is a \<open>dspy.Module\<close>: calling it performs inference and either
  returns a string or raises. Its answers may differ from one call to the next, so an agent
  is a function of the number of calls made before and of the message; \<open>agent n msg\<close> is
  the outcome of call number \<open>n\<close> (counted from 0). Every call is taken to return or raise:
  a call that never comes back, and the flow's \<open>timeout_seconds=300\<close>, are outside the model.

  The state of a run records how many times the agent has been called and the sequence of
  orchestration events: the start of an attempt of a task and the pause before a retry.
\<close>

type_synonym agent = "nat \<Rightarrow> string \<Rightarrow> exn + string"

datatype task = SecurityCheck | GetResponse

datatype event = Attempt task | Delay nat

record world =
  calls :: nat
  trace :: "event list"

definition attempts :: "task \<Rightarrow> world \<Rightarrow> nat" where
  "attempts t w = length (filter (\<lambda>ev. ev = Attempt t) (trace w))"

definition call_agent :: "agent \<Rightarrow> string \<Rightarrow> world \<Rightarrow> (exn + string) \<times> world" where
  "call_agent agent msg w = (agent (calls w) msg, w\<lparr>calls := Suc (calls w)\<rparr>)"

subsection \<open>The task decorator\<close>

text \<open>
  Both functions are decorated \<open>@task(retries=3, retry_delay_seconds=5)\<close>. The decorator is
  Prefect's, a library the repository imports; \<open>run_task\<close> states what it does with the
  arguments the source gives it. \<open>retries\<close> is the number of times a failed run is run
  again, so a task runs at most \<open>retries + 1\<close> times; the source passes no
  \<open>retry_condition_fn\<close>, so every exception raised by the body leads to a retry while
  retries remain; \<open>retry_delay_seconds\<close> is the pause before each retry. When no retry
  remains the last exception is raised to the caller; a body that returns ends the task with
  its value.
\<close>

fun run_task ::
  "task \<Rightarrow> nat \<Rightarrow> nat \<Rightarrow> (world \<Rightarrow> (exn + 'a) \<times> world) \<Rightarrow> world \<Rightarrow> (exn + 'a) \<times> world" where
  "run_task t 0 retry_delay_seconds fn w = fn (w\<lparr>trace := trace w @ [Attempt t]\<rparr>)"
| "run_task t (Suc retries) retry_delay_seconds fn w =
     (case fn (w\<lparr>trace := trace w @ [Attempt t]\<rparr>) of
        (Inr v, w') \<Rightarrow> (Inr v, w')
      | (Inl e, w') \<Rightarrow>
          run_task t retries retry_delay_seconds fn
            (w'\<lparr>trace := trace w' @ [Delay retry_delay_seconds]\<rparr>))"

subsection \<open>The two tasks and the flow\<close>

text \<open>
  \<open>security_check_fn\<close> and \<open>get_response_fn\<close> are the bodies of the decorated functions;
  \<open>security_check\<close> and \<open>get_response\<close> are the tasks the flow calls.
  \<^verbatim>\<open>
  result = await agent(msg)
  return result.lower() == "passed"
  \<close>
\<close>

definition security_check_fn ::
  "(string \<Rightarrow> string) \<Rightarrow> agent \<Rightarrow> string \<Rightarrow> world \<Rightarrow> (exn + bool) \<times> world" where
  "security_check_fn ulower agent msg w =
     (case call_agent agent msg w of
        (Inl e, w') \<Rightarrow> (Inl e, w')
      | (Inr result, w') \<Rightarrow> (Inr (str_lower ulower result = ''passed''), w'))"

definition security_check ::
  "(string \<Rightarrow> string) \<Rightarrow> agent \<Rightarrow> string \<Rightarrow> world \<Rightarrow> (exn + bool) \<times> world" where
  "security_check ulower agent msg = run_task SecurityCheck 3 5 (security_check_fn ulower agent msg)"

text \<open>
  \<^verbatim>\<open>
  try:
      result = await agent(msg)
  except Exception as e:
      raise e
  return result
  \<close>
\<close>

definition get_response_fn :: "agent \<Rightarrow> string \<Rightarrow> world \<Rightarrow> (exn + string) \<times> world" where
  "get_response_fn agent msg w =
     (case call_agent agent msg w of
        (Inl e, w') \<Rightarrow> (Inl e, w')
      | (Inr result, w') \<Rightarrow> (Inr result, w'))"

definition get_response :: "agent \<Rightarrow> string \<Rightarrow> world \<Rightarrow> (exn + string) \<times> world" where
  "get_response agent msg = run_task GetResponse 3 5 (get_response_fn agent msg)"

text \<open>
  The flow runs the security task, raises \<open>ValueError("Security check failed")\<close> when its
  result is false and otherwise runs the response task with the same agent and message. Its
  \<open>except Exception as e: raise e\<close> passes every exception on; the flow decorator is given
  no retries, so an exception ends the run as failed (\<open>Inl\<close>).
\<close>

definition sequential_chat_processing_flow ::
  "(string \<Rightarrow> string) \<Rightarrow> agent \<Rightarrow> string \<Rightarrow> world \<Rightarrow> (exn + string) \<times> world" where
  "sequential_chat_processing_flow ulower agent message w =
     (case security_check ulower agent message w of
        (Inl e, w') \<Rightarrow> (Inl e, w')
      | (Inr security_passed, w') \<Rightarrow>
          if \<not> security_passed then (Inl (ValueError ''Security check failed''), w')
          else get_response agent message w')"


section \<open>Agent configuration (\<open>ai/agents.py\<close>)\<close>

subsection \<open>Providers and metadata objects\<close>

datatype ProviderType =
    OPENAI | AZURE | AWS | HUGGINGFACE | COHERE | ANTHROPIC
  | MISTRAL | GROQ | GROK | GOOGLE | LOCAL | OPENROUTER

fun provider_value :: "ProviderType \<Rightarrow> string" where
  "provider_value OPENAI = ''openai''"
| "provider_value AZURE = ''azure''"
| "provider_value AWS = ''aws''"
| "provider_value HUGGINGFACE = ''huggingface''"
| "provider_value COHERE = ''cohere''"
| "provider_value ANTHROPIC = ''anthropic''"
| "provider_value MISTRAL = ''mistral''"
| "provider_value GROQ = ''groq''"
| "provider_value GROK = ''grok''"
| "provider_value GOOGLE = ''google''"
| "provider_value LOCAL = ''local''"
| "provider_value OPENROUTER = ''openrouter''"

definition provider_values :: "string list" where
  "provider_values =
     [''openai'', ''azure'', ''aws'', ''huggingface'', ''cohere'', ''anthropic'',
      ''mistral'', ''groq'', ''grok'', ''google'', ''local'', ''openrouter'']"

text \<open>
  The values an attribute of a \<open>Metadata\<close> object can hold. The field annotations
  (\<open>str\<close>, \<open>int\<close>, \<open>float\<close>, \<open>ProviderType\<close>, \<open>str | None\<close>) are checked when the object is
  built, but \<open>setattr\<close> stores whatever it is given, so every field is a \<open>pyval\<close>. A float
  is only stored and passed on, never computed with.
\<close>

datatype pyval =
    PNone
  | PStr string
  | PInt int
  | PFloat real
  | PProvider ProviderType

record Metadata =
  model :: pyval
  tokens :: pyval
  temperature :: pyval
  max_tokens :: pyval
  provider :: pyval
  api_key :: pyval
  base_url :: pyval

definition metadata_fields :: "string list" where
  "metadata_fields =
     [''model'', ''tokens'', ''temperature'', ''max_tokens'', ''provider'', ''api_key'',
      ''base_url'']"

definition set_field :: "string \<Rightarrow> pyval \<Rightarrow> Metadata \<Rightarrow> Metadata" where
  "set_field key v md =
     (if key = ''model'' then md\<lparr>model := v\<rparr>
      else if key = ''tokens'' then md\<lparr>tokens := v\<rparr>
      else if key = ''temperature'' then md\<lparr>temperature := v\<rparr>
      else if key = ''max_tokens'' then md\<lparr>max_tokens := v\<rparr>
      else if key = ''provider'' then md\<lparr>provider := v\<rparr>
      else if key = ''api_key'' then md\<lparr>api_key := v\<rparr>
      else if key = ''base_url'' then md\<lparr>base_url := v\<rparr>
      else md)"

definition get_field :: "string \<Rightarrow> Metadata \<Rightarrow> pyval option" where
  "get_field key md =
     (if key = ''model'' then Some (model md)
      else if key = ''tokens'' then Some (tokens md)
      else if key = ''temperature'' then Some (temperature md)
      else if key = ''max_tokens'' then Some (max_tokens md)
      else if key = ''provider'' then Some (provider md)
      else if key = ''api_key'' then Some (api_key md)
      else if key = ''base_url'' then Some (base_url md)
      else None)"

text \<open>
  \<open>hasattr\<close> and \<open>setattr\<close> on a \<open>Metadata\<close> object. \<open>Metadata\<close> derives from pydantic's
  \<open>BaseModel\<close>, so besides the declared fields the object answers \<open>hasattr\<close> for the names
  the base class supplies (its methods and internals). Which names these are, and what
  assigning to one of them does, is decided by pydantic and not by the repository: they are
  the two components of \<open>base_class\<close>. Assigning to a declared field stores the value
  (the class sets no \<open>validate_assignment\<close>).
\<close>

record base_class =
  base_hasattr :: "string \<Rightarrow> bool"
  base_setattr :: "string \<Rightarrow> pyval \<Rightarrow> Metadata \<Rightarrow> exn + Metadata"

definition hasattr :: "base_class \<Rightarrow> Metadata \<Rightarrow> string \<Rightarrow> bool" where
  "hasattr B md key = (key \<in> set metadata_fields \<or> base_hasattr B key)"

definition setattr :: "base_class \<Rightarrow> Metadata \<Rightarrow> string \<Rightarrow> pyval \<Rightarrow> exn + Metadata" where
  "setattr B md key v =
     (if key \<in> set metadata_fields then Inr (set_field key v md)
      else base_setattr B key v md)"

subsection \<open>The \<open>Management\<close> class\<close>

text \<open>
  Objects live in a store and are referred to by address, so that mutation in place and the
  creation of a new object can be told apart. A \<open>Management\<close> object holds the address of
  its metadata object.
\<close>

type_synonym addr = nat

type_synonym heap = "addr \<Rightarrow> Metadata"

record Management =
  metadata :: addr

definition Management_init :: "addr \<Rightarrow> Management" where
  "Management_init md = \<lparr>metadata = md\<rparr>"

definition get_metadata :: "Management \<Rightarrow> addr" where
  "get_metadata self = metadata self"

definition set_metadata :: "Management \<Rightarrow> addr \<Rightarrow> Management" where
  "set_metadata self md = self\<lparr>metadata := md\<rparr>"

text \<open>
  \<^verbatim>\<open>
  for key, value in kwargs.items():
      if hasattr(self.metadata, key):
          setattr(self.metadata, key, value)
      else:
          raise ValueError(f"Invalid metadata field: {key}")
  \<close>
  The keyword arguments are a list of pairs in the order given. The loop writes through the
  reference held by \<open>self\<close>; \<open>self\<close> is returned to show that the reference is not
  reassigned.
\<close>

fun update_metadata_loop ::
  "base_class \<Rightarrow> addr \<Rightarrow> (string \<times> pyval) list \<Rightarrow> heap \<Rightarrow> (exn + unit) \<times> heap" where
  "update_metadata_loop B a [] h = (Inr (), h)"
| "update_metadata_loop B a ((key, v) # kwargs) h =
     (if hasattr B (h a) key then
        (case setattr B (h a) key v of
           Inl e \<Rightarrow> (Inl e, h)
         | Inr md' \<Rightarrow> update_metadata_loop B a kwargs (h(a := md')))
      else (Inl (ValueError (''Invalid metadata field: '' @ key)), h))"

definition update_metadata ::
  "base_class \<Rightarrow> Management \<Rightarrow> (string \<times> pyval) list \<Rightarrow> heap
     \<Rightarrow> (exn + unit) \<times> Management \<times> heap" where
  "update_metadata B self kwargs h =
     (case update_metadata_loop B (metadata self) kwargs h of (r, h') \<Rightarrow> (r, self, h'))"

text \<open>
  \<open>get_lm\<close> reads the fields of the metadata object, takes \<open>.value\<close> of the provider and
  calls \<open>dspy.LM\<close>. The constructor belongs to dspy: it is the parameter \<open>LM\<close>, which
  returns a client or raises. Only an enum member has a \<open>value\<close> attribute.
\<close>

record lm_args =
  lm_model :: pyval
  lm_max_tokens :: pyval
  lm_temperature :: pyval
  lm_provider :: string
  lm_api_key :: pyval
  lm_base_url :: pyval

definition get_lm :: "(lm_args \<Rightarrow> exn + 'lm) \<Rightarrow> Management \<Rightarrow> heap \<Rightarrow> exn + 'lm" where
  "get_lm LM self h =
     (let md = h (metadata self) in
      case provider md of
        PProvider p \<Rightarrow>
          LM \<lparr>lm_model = model md, lm_max_tokens = max_tokens md,
              lm_temperature = temperature md, lm_provider = provider_value p,
              lm_api_key = api_key md, lm_base_url = base_url md\<rparr>
      | _ \<Rightarrow> Inl (AttributeError ''value''))"


section \<open>Signatures and agents (\<open>ai/nodes/agents\<close>)\<close>

subsection \<open>Declared fields\<close>

text \<open>
  A \<open>dspy.Signature\<close> subclass declares its input and output fields; the lists keep the
  order of declaration.
\<close>

record Signature =
  input_fields :: "string list"
  output_fields :: "string list"

definition ReasoningNode :: Signature where
  "ReasoningNode = \<lparr>input_fields = [''query''], output_fields = [''keywords'', ''reasoning'']\<rparr>"

definition EnhanceQueryNode :: Signature where
  "EnhanceQueryNode =
     \<lparr>input_fields = [''query'', ''keywords'', ''reasoning''],
      output_fields = [''enhanced_query'']\<rparr>"

definition QANode :: Signature where
  "QANode = \<lparr>input_fields = [''question'', ''context''], output_fields = [''answer'']\<rparr>"

definition MathNode :: Signature where
  "MathNode = \<lparr>input_fields = [''query'', ''reasoning''], output_fields = [''result'']\<rparr>"

definition MentorNode :: Signature where
  "MentorNode =
     \<lparr>input_fields = [''query'', ''keywords'', ''reasoning''], output_fields = [''guidance'']\<rparr>"

definition CreativeNode :: Signature where
  "CreativeNode =
     \<lparr>input_fields = [''query'', ''keywords'', ''reasoning''],
      output_fields = [''creative_output'']\<rparr>"

definition AdvisorNode :: Signature where
  "AdvisorNode =
     \<lparr>input_fields = [''query'', ''keywords'', ''reasoning''], output_fields = [''advice'']\<rparr>"

definition SecurityNode :: Signature where
  "SecurityNode = \<lparr>input_fields = [''query''], output_fields = [''security_check'']\<rparr>"

text \<open>
  A stage is a signature wrapped in one of dspy's predictors; \<open>ReAct\<close> also takes the names
  of its tools.
\<close>

datatype predictor =
    Predict Signature
  | ChainOfThought Signature
  | ReAct Signature "string list"

fun signature_of :: "predictor \<Rightarrow> Signature" where
  "signature_of (Predict s) = s"
| "signature_of (ChainOfThought s) = s"
| "signature_of (ReAct s tools) = s"

definition declared_inputs :: "predictor \<Rightarrow> string list" where
  "declared_inputs p = input_fields (signature_of p)"

definition declared_outputs :: "predictor \<Rightarrow> string list" where
  "declared_outputs p = output_fields (signature_of p)"

text \<open>
  The property under study: along a sequence of stages, each stage's declared outputs
  contain every declared input of the stage that follows.
\<close>

fun outputs_cover_next_inputs :: "predictor list \<Rightarrow> bool" where
  "outputs_cover_next_inputs (s1 # s2 # rest) =
     (set (declared_inputs s2) \<subseteq> set (declared_outputs s1) \<and>
      outputs_cover_next_inputs (s2 # rest))"
| "outputs_cover_next_inputs [s1] = True"
| "outputs_cover_next_inputs [] = True"

subsection \<open>\<open>BaseAgent\<close>\<close>

text \<open>
  \<^verbatim>\<open>
  self.metadata = metadata
  self.lm = AgentManagement(metadata=self.metadata).get_lm()
  self.reasoner = dspy.ChainOfThought(ReasoningNode)
  self.enhance_query = dspy.ChainOfThought(EnhanceQueryNode)
  self.get_answer = dspy.Predict(QANode)
  \<close>
  The only step of the constructor that can fail is \<open>get_lm\<close>.
\<close>

record 'lm BaseAgent =
  agent_metadata :: addr
  lm :: 'lm
  reasoner :: predictor
  enhance_query :: predictor
  get_answer :: predictor

definition BaseAgent_init ::
  "(lm_args \<Rightarrow> exn + 'lm) \<Rightarrow> addr \<Rightarrow> heap \<Rightarrow> exn + 'lm BaseAgent" where
  "BaseAgent_init LM md h =
     (case get_lm LM (Management_init md) h of
        Inl e \<Rightarrow> Inl e
      | Inr client \<Rightarrow>
          Inr \<lparr>agent_metadata = md, lm = client,
               reasoner = ChainOfThought ReasoningNode,
               enhance_query = ChainOfThought EnhanceQueryNode,
               get_answer = Predict QANode\<rparr>)"

text \<open>The stages in the order in which \<open>forward\<close> runs them.\<close>

definition stages :: "'lm BaseAgent \<Rightarrow> predictor list" where
  "stages ag = [reasoner ag, enhance_query ag, get_answer ag]"

text \<open>
  \<open>forward\<close> passes keyword arguments to each stage. An argument is the caller's query, a
  literal, or a field read from the result of an earlier stage (numbered from 0):
  \<^verbatim>\<open>
  enhancements = await self.reasoner.acall(query=query)
  enhanced_query = await self.enhance_query.acall(
      query=query, keywords=enhancements.keywords, reasoning=enhancements.reasoning)
  answer = await self.get_answer.acall(
      question=enhanced_query.enhanced_query, context=enhancements.reasoning)
  return answer.answer
  \<close>
\<close>

datatype source = Query | Literal string | Output nat string

definition forward_calls :: "(string \<times> source) list list" where
  "forward_calls =
     [[(''query'', Query)],
      [(''query'', Query), (''keywords'', Output 0 ''keywords''),
       (''reasoning'', Output 0 ''reasoning'')],
      [(''question'', Output 1 ''enhanced_query''), (''context'', Output 0 ''reasoning'')]]"

definition forward_result :: source where
  "forward_result = Output 2 ''answer''"

fun source_ok :: "predictor list \<Rightarrow> nat \<Rightarrow> source \<Rightarrow> bool" where
  "source_ok sts i Query = True"
| "source_ok sts i (Literal s) = True"
| "source_ok sts i (Output j f) =
     (j < i \<and> j < length sts \<and> f \<in> set (declared_outputs (sts ! j)))"

definition call_ok :: "predictor list \<Rightarrow> nat \<Rightarrow> (string \<times> source) list \<Rightarrow> bool" where
  "call_ok sts i kwargs =
     (i < length sts \<and> map fst kwargs = declared_inputs (sts ! i) \<and>
      list_all (\<lambda>kv. source_ok sts i (snd kv)) kwargs)"

definition wiring_ok :: "predictor list \<Rightarrow> (string \<times> source) list list \<Rightarrow> source \<Rightarrow> bool" where
  "wiring_ok sts calls_made res =
     (length calls_made = length sts \<and>
      list_all (\<lambda>i. call_ok sts i (calls_made ! i)) [0..<length calls_made] \<and>
      source_ok sts (length sts) res)"

subsection \<open>The other agents\<close>

text \<open>The stage sequences of the remaining agent classes, in the order of their \<open>forward\<close>.\<close>

definition MathAgent_stages :: "predictor list" where
  "MathAgent_stages = [ChainOfThought ReasoningNode, Predict MathNode]"

definition MentorAgent_stages :: "predictor list" where
  "MentorAgent_stages = [ChainOfThought ReasoningNode, Predict MentorNode]"

definition CreativeAgent_stages :: "predictor list" where
  "CreativeAgent_stages = [ChainOfThought ReasoningNode, Predict CreativeNode]"

definition AdvisorAgent_stages :: "predictor list" where
  "AdvisorAgent_stages = [ChainOfThought ReasoningNode, Predict AdvisorNode]"

definition Researcher_stages :: "predictor list" where
  "Researcher_stages =
     [ChainOfThought ReasoningNode, ChainOfThought EnhanceQueryNode,
      ReAct QANode [''search_tool'']]"

definition SecurityAgent_stages :: "predictor list" where
  "SecurityAgent_stages = [Predict SecurityNode]"


section \<open>Concrete inputs\<close>

text \<open>Small inputs on which the definitions above are evaluated below.\<close>

definition fresh :: world where
  "fresh = \<lparr>calls = 0, trace = []\<rparr>"

definition always_returns :: "string \<Rightarrow> agent" where
  "always_returns r n msg = Inr r"

definition always_raises :: "exn \<Rightarrow> agent" where
  "always_raises e n msg = Inl e"

definition raises_then_returns :: "nat \<Rightarrow> exn \<Rightarrow> string \<Rightarrow> agent" where
  "raises_then_returns k e r n msg = (if n < k then Inl e else Inr r)"

text \<open>
  A constructor in the manner of \<open>dspy.LM\<close>: it refuses a model that is not a non-empty
  string and otherwise returns a client that holds the arguments it was given.
\<close>

definition example_LM :: "lm_args \<Rightarrow> exn + lm_args" where
  "example_LM args =
     (case lm_model args of
        PStr (c # cs) \<Rightarrow> Inr args
      | _ \<Rightarrow> Inl (ValueError ''model must be a non-empty string''))"

definition example_metadata :: Metadata where
  "example_metadata =
     \<lparr>model = PStr ''openai/gpt-4o-mini'', tokens = PInt 0, temperature = PFloat 0,
      max_tokens = PInt 1024, provider = PProvider OPENAI, api_key = PNone,
      base_url = PNone\<rparr>"

definition every_address :: "Metadata \<Rightarrow> heap" where
  "every_address md a = md"

text \<open>
  What pydantic's \<open>BaseModel\<close> does with the names used below. Every instance has the
  attribute \<open>__doc__\<close> and the methods \<open>model_dump\<close>, \<open>model_copy\<close> and \<open>copy\<close>, so
  \<open>hasattr\<close> holds for them. Its \<open>__setattr__\<close> stores a name that begins with an
  underscore on the object without raising, and the declared fields keep their values; for
  any other name that is not a field it raises \<open>ValueError\<close>.
\<close>

definition example_base :: base_class where
  "example_base =
     \<lparr>base_hasattr = (\<lambda>key. key \<in> set [''__doc__'', ''model_dump'', ''model_copy'', ''copy'']),
      base_setattr =
        (\<lambda>key v md.
           case key of
             c # cs \<Rightarrow>
               if c = CHR ''_'' then Inr md
               else Inl (ValueError (''Metadata object has no field '' @ key))
           | [] \<Rightarrow> Inl (ValueError (''Metadata object has no field '' @ key)))\<rparr>"


section \<open>Properties of the workflow\<close>

subsection \<open>Lower-casing\<close>

text \<open>
  \<open>lower_ascii\<close> is Python's mapping on ASCII: it adds 32 to the codes 65..90 and changes
  nothing else.
\<close>

lemma lower_ascii_code:
  "(of_char (lower_ascii c) :: nat) =
     (if 65 \<le> (of_char c :: nat) \<and> (of_char c :: nat) \<le> 90 then of_char c + 32 else of_char c)"
  by (cases c) (auto simp add: Let_def)

lemma str_lower_failed: "str_lower U ''failed'' \<noteq> ''passed''"
  by (simp add: str_lower_def is_ascii_def)

lemma str_lower_passed: "str_lower U ''passed'' = ''passed''"
  by (simp add: str_lower_def is_ascii_def)

text \<open>A string that spells \<open>passed\<close> in any mixture of upper and lower case is lowered to it.\<close>

lemma either_case:
  "c = CHR ''p'' \<or> c = CHR ''P'' \<Longrightarrow> is_ascii c \<and> lower_ascii c = CHR ''p''"
  "c = CHR ''a'' \<or> c = CHR ''A'' \<Longrightarrow> is_ascii c \<and> lower_ascii c = CHR ''a''"
  "c = CHR ''s'' \<or> c = CHR ''S'' \<Longrightarrow> is_ascii c \<and> lower_ascii c = CHR ''s''"
  "c = CHR ''e'' \<or> c = CHR ''E'' \<Longrightarrow> is_ascii c \<and> lower_ascii c = CHR ''e''"
  "c = CHR ''d'' \<or> c = CHR ''D'' \<Longrightarrow> is_ascii c \<and> lower_ascii c = CHR ''d''"
  by (auto simp add: is_ascii_def)

lemma str_lower_any_case:
  assumes "length r = 6" and "\<forall>i<6. r ! i = ''passed'' ! i \<or> r ! i = ''PASSED'' ! i"
  shows "str_lower U r = ''passed''"
proof -
  obtain c0 c1 c2 c3 c4 c5 where r: "r = [c0, c1, c2, c3, c4, c5]"
    using assms(1) by (auto simp add: length_Suc_conv eval_nat_numeral)
  have "r ! 0 = ''passed'' ! 0 \<or> r ! 0 = ''PASSED'' ! 0" using assms(2) [rule_format, of 0] by simp
  then have a0: "is_ascii c0 \<and> lower_ascii c0 = CHR ''p''" using r by (simp add: either_case)
  have "r ! 1 = ''passed'' ! 1 \<or> r ! 1 = ''PASSED'' ! 1" using assms(2) [rule_format, of 1] by simp
  then have a1: "is_ascii c1 \<and> lower_ascii c1 = CHR ''a''" using r by (simp add: either_case)
  have "r ! 2 = ''passed'' ! 2 \<or> r ! 2 = ''PASSED'' ! 2" using assms(2) [rule_format, of 2] by simp
  then have a2: "is_ascii c2 \<and> lower_ascii c2 = CHR ''s''" using r by (simp add: either_case)
  have "r ! 3 = ''passed'' ! 3 \<or> r ! 3 = ''PASSED'' ! 3" using assms(2) [rule_format, of 3] by simp
  then have a3: "is_ascii c3 \<and> lower_ascii c3 = CHR ''s''" using r by (simp add: either_case)
  have "r ! 4 = ''passed'' ! 4 \<or> r ! 4 = ''PASSED'' ! 4" using assms(2) [rule_format, of 4] by simp
  then have a4: "is_ascii c4 \<and> lower_ascii c4 = CHR ''e''" using r by (simp add: either_case)
  have "r ! 5 = ''passed'' ! 5 \<or> r ! 5 = ''PASSED'' ! 5" using assms(2) [rule_format, of 5] by simp
  then have a5: "is_ascii c5 \<and> lower_ascii c5 = CHR ''d''" using r by (simp add: either_case)
  show ?thesis
    using a0 a1 a2 a3 a4 a5 by (simp add: r str_lower_def)
qed

subsection \<open>One attempt of a task body\<close>

lemma security_check_fn_returns:
  "agent (calls w) msg = Inr result \<Longrightarrow>
   security_check_fn U agent msg w =
     (Inr (str_lower U result = ''passed''), w\<lparr>calls := Suc (calls w)\<rparr>)"
  by (simp add: security_check_fn_def call_agent_def)

lemma security_check_fn_raises:
  "agent (calls w) msg = Inl e \<Longrightarrow>
   security_check_fn U agent msg w = (Inl e, w\<lparr>calls := Suc (calls w)\<rparr>)"
  by (simp add: security_check_fn_def call_agent_def)

lemma security_check_fn_trace:
  "trace (snd (security_check_fn U agent msg w)) = trace w"
  by (simp add: security_check_fn_def call_agent_def split: sum.splits)

lemma get_response_fn_eq:
  "get_response_fn agent msg w = (agent (calls w) msg, w\<lparr>calls := Suc (calls w)\<rparr>)"
  by (simp add: get_response_fn_def call_agent_def split: sum.splits)

lemma get_response_fn_trace:
  "trace (snd (get_response_fn agent msg w)) = trace w"
  by (simp add: get_response_fn_eq)

subsection \<open>The retry loop\<close>

lemma run_task_returns:
  "fn (w\<lparr>trace := trace w @ [Attempt t]\<rparr>) = (Inr v, w') \<Longrightarrow> run_task t r d fn w = (Inr v, w')"
  by (cases r) simp_all

lemma run_task_retries:
  "fn (w\<lparr>trace := trace w @ [Attempt t]\<rparr>) = (Inl e, w') \<Longrightarrow>
   run_task t (Suc r) d fn w = run_task t r d fn (w'\<lparr>trace := trace w' @ [Delay d]\<rparr>)"
  by simp

lemma run_task_attempts_le:
  assumes "\<And>w. trace (snd (fn w)) = trace w"
  shows "attempts t (snd (run_task t r d fn w)) \<le> attempts t w + Suc r"
proof (induction r arbitrary: w)
  case 0
  show ?case by (simp add: assms attempts_def)
next
  case (Suc r)
  obtain res w' where fw: "fn (w\<lparr>trace := trace w @ [Attempt t]\<rparr>) = (res, w')"
    by (cases "fn (w\<lparr>trace := trace w @ [Attempt t]\<rparr>)")
  have tr: "trace w' = trace w @ [Attempt t]"
    using assms [of "w\<lparr>trace := trace w @ [Attempt t]\<rparr>"] fw by simp
  show ?case
  proof (cases res)
    case (Inr v)
    then show ?thesis using fw tr by (simp add: attempts_def)
  next
    case (Inl e)
    have "attempts t (snd (run_task t r d fn (w'\<lparr>trace := trace w' @ [Delay d]\<rparr>)))
            \<le> attempts t (w'\<lparr>trace := trace w' @ [Delay d]\<rparr>) + Suc r"
      by (rule Suc.IH)
    moreover have "attempts t (w'\<lparr>trace := trace w' @ [Delay d]\<rparr>) = Suc (attempts t w)"
      using tr by (simp add: attempts_def)
    ultimately show ?thesis using fw Inl by simp
  qed
qed

subsection \<open>The tasks and the flow\<close>

lemma security_check_returns:
  assumes "agent (calls w) msg = Inr result"
  shows "security_check U agent msg w =
     (Inr (str_lower U result = ''passed''),
      w\<lparr>calls := Suc (calls w), trace := trace w @ [Attempt SecurityCheck]\<rparr>)"
proof -
  have "security_check_fn U agent msg (w\<lparr>trace := trace w @ [Attempt SecurityCheck]\<rparr>) =
     (Inr (str_lower U result = ''passed''),
      w\<lparr>calls := Suc (calls w), trace := trace w @ [Attempt SecurityCheck]\<rparr>)"
    using assms by (simp add: security_check_fn_returns)
  then show ?thesis
    unfolding security_check_def by (rule run_task_returns)
qed

lemma security_check_retries_once:
  assumes "agent (calls w) msg = Inl e" and "agent (Suc (calls w)) msg = Inr result"
  shows "security_check U agent msg w =
     (Inr (str_lower U result = ''passed''),
      w\<lparr>calls := calls w + 2,
        trace := trace w @ [Attempt SecurityCheck, Delay 5, Attempt SecurityCheck]\<rparr>)"
  using assms
  by (simp add: security_check_def numeral_3_eq_3 security_check_fn_def call_agent_def)

lemma get_response_retries_once:
  assumes "agent (calls w) msg = Inl e" and "agent (Suc (calls w)) msg = Inr result"
  shows "get_response agent msg w =
     (Inr result,
      w\<lparr>calls := calls w + 2,
        trace := trace w @ [Attempt GetResponse, Delay 5, Attempt GetResponse]\<rparr>)"
  using assms
  by (simp add: get_response_def numeral_3_eq_3 get_response_fn_eq)

lemma security_check_all_raise:
  assumes "\<forall>n. isl (agent n msg)"
  shows "security_check U agent msg w =
     (Inl (projl (agent (calls w + 3) msg)),
      w\<lparr>calls := calls w + 4,
        trace := trace w @ [Attempt SecurityCheck, Delay 5, Attempt SecurityCheck, Delay 5,
                            Attempt SecurityCheck, Delay 5, Attempt SecurityCheck]\<rparr>)"
proof -
  have r: "\<And>n. agent n msg = Inl (projl (agent n msg))"
    using assms by simp
  have f: "\<And>w'. security_check_fn U agent msg w' =
      (Inl (projl (agent (calls w') msg)), w'\<lparr>calls := Suc (calls w')\<rparr>)"
    using r by (rule security_check_fn_raises)
  show ?thesis
    by (simp add: security_check_def numeral_3_eq_3 f)
qed

lemma get_response_all_raise:
  assumes "\<forall>n. isl (agent n msg)"
  shows "get_response agent msg w =
     (Inl (projl (agent (calls w + 3) msg)),
      w\<lparr>calls := calls w + 4,
        trace := trace w @ [Attempt GetResponse, Delay 5, Attempt GetResponse, Delay 5,
                            Attempt GetResponse, Delay 5, Attempt GetResponse]\<rparr>)"
proof -
  have r: "\<And>n. agent n msg = Inl (projl (agent n msg))"
    using assms by simp
  have f: "\<And>w'. get_response_fn agent msg w' =
      (Inl (projl (agent (calls w') msg)), w'\<lparr>calls := Suc (calls w')\<rparr>)"
    using r by (simp add: get_response_fn_eq)
  show ?thesis
    by (simp add: get_response_def numeral_3_eq_3 f)
qed

lemma security_check_attempts_le:
  "attempts SecurityCheck (snd (security_check U agent msg w)) \<le> attempts SecurityCheck w + 4"
  unfolding security_check_def
  using run_task_attempts_le [of "security_check_fn U agent msg" SecurityCheck 3 5 w]
  by (simp add: security_check_fn_trace)

lemma get_response_attempts_le:
  "attempts GetResponse (snd (get_response agent msg w)) \<le> attempts GetResponse w + 4"
  unfolding get_response_def
  using run_task_attempts_le [of "get_response_fn agent msg" GetResponse 3 5 w]
  by (simp add: get_response_fn_trace)

lemma flow_rejects:
  assumes "agent (calls w) message = Inr result" and "str_lower U result \<noteq> ''passed''"
  shows "sequential_chat_processing_flow U agent message w =
     (Inl (ValueError ''Security check failed''),
      w\<lparr>calls := Suc (calls w), trace := trace w @ [Attempt SecurityCheck]\<rparr>)"
  using assms
  by (simp add: sequential_chat_processing_flow_def security_check_returns)

lemma flow_all_raise:
  assumes "\<forall>n. isl (agent n message)"
  shows "sequential_chat_processing_flow U agent message w =
     (Inl (projl (agent (calls w + 3) message)),
      w\<lparr>calls := calls w + 4,
        trace := trace w @ [Attempt SecurityCheck, Delay 5, Attempt SecurityCheck, Delay 5,
                            Attempt SecurityCheck, Delay 5, Attempt SecurityCheck]\<rparr>)"
  using assms
  by (simp add: sequential_chat_processing_flow_def security_check_all_raise)

subsection \<open>Tasks whose body calls the agent\<close>

text \<open>
  Both task bodies make one call of the agent and pass its exception on. For such a body the
  retry loop is determined by the agent: the task returns on the first call that returns,
  if that is among the first \<open>retries + 1\<close> calls, and otherwise raises the exception of
  call number \<open>retries\<close>.
\<close>

lemma security_check_fn_agent:
  "security_check_fn U agent msg w' =
     (map_sum id (\<lambda>r. str_lower U r = ''passed'') (agent (calls w') msg),
      w'\<lparr>calls := Suc (calls w')\<rparr>)"
  by (simp add: security_check_fn_def call_agent_def split: sum.splits)

lemma get_response_fn_agent:
  "get_response_fn agent msg w' =
     (map_sum id id (agent (calls w') msg), w'\<lparr>calls := Suc (calls w')\<rparr>)"
  by (simp add: get_response_fn_eq sum.map_id)

lemma run_task_agent_returns:
  assumes fn: "\<And>w'. fn w' = (map_sum id f (agent (calls w') msg), w'\<lparr>calls := Suc (calls w')\<rparr>)"
  shows "k \<le> r \<Longrightarrow> \<forall>i<k. isl (agent (calls w + i) msg) \<Longrightarrow>
         agent (calls w + k) msg = Inr result \<Longrightarrow>
         run_task t r d fn w =
           (Inr (f result),
            w\<lparr>calls := calls w + Suc k,
              trace := trace w @ concat (replicate k [Attempt t, Delay d]) @ [Attempt t]\<rparr>)"
proof (induction k arbitrary: r w)
  case 0
  have "fn (w\<lparr>trace := trace w @ [Attempt t]\<rparr>) =
      (Inr (f result), w\<lparr>calls := Suc (calls w), trace := trace w @ [Attempt t]\<rparr>)"
    using 0 by (simp add: fn)
  then have "run_task t r d fn w =
      (Inr (f result), w\<lparr>calls := Suc (calls w), trace := trace w @ [Attempt t]\<rparr>)"
    by (rule run_task_returns)
  then show ?case by simp
next
  case (Suc k)
  obtain r' where r: "r = Suc r'" and kr: "k \<le> r'"
    using Suc.prems(1) by (cases r) simp_all
  have "isl (agent (calls w) msg)"
    using Suc.prems(2) by (metis add.right_neutral zero_less_Suc)
  then obtain e where e: "agent (calls w) msg = Inl e"
    by (auto simp add: isl_def)
  let ?w = "w\<lparr>calls := Suc (calls w), trace := trace w @ [Attempt t, Delay d]\<rparr>"
  have step: "run_task t r d fn w = run_task t r' d fn ?w"
    using e by (simp add: r fn)
  have rest: "\<forall>i<k. isl (agent (calls ?w + i) msg)"
    using Suc.prems(2) by auto
  have last: "agent (calls ?w + k) msg = Inr result"
    using Suc.prems(3) by simp
  show ?case
    unfolding step Suc.IH [OF kr rest last] by simp
qed

lemma run_task_agent_raises:
  assumes fn: "\<And>w'. fn w' = (map_sum id f (agent (calls w') msg), w'\<lparr>calls := Suc (calls w')\<rparr>)"
  shows "\<forall>i\<le>r. isl (agent (calls w + i) msg) \<Longrightarrow>
         run_task t r d fn w =
           (Inl (projl (agent (calls w + r) msg)),
            w\<lparr>calls := calls w + Suc r,
              trace := trace w @ concat (replicate r [Attempt t, Delay d]) @ [Attempt t]\<rparr>)"
proof (induction r arbitrary: w)
  case 0
  then obtain e where e: "agent (calls w) msg = Inl e"
    by (auto simp add: isl_def)
  then show ?case by (simp add: fn)
next
  case (Suc r)
  have "isl (agent (calls w) msg)"
    using Suc.prems by (metis add.right_neutral le0)
  then obtain e where e: "agent (calls w) msg = Inl e"
    by (auto simp add: isl_def)
  let ?w = "w\<lparr>calls := Suc (calls w), trace := trace w @ [Attempt t, Delay d]\<rparr>"
  have step: "run_task t (Suc r) d fn w = run_task t r d fn ?w"
    using e by (simp add: fn)
  have rest: "\<forall>i\<le>r. isl (agent (calls ?w + i) msg)"
    using Suc.prems by auto
  show ?case
    unfolding step Suc.IH [OF rest] by simp
qed

lemma security_check_returns_after:
  assumes "k \<le> 3" and "\<forall>i<k. isl (agent (calls w + i) msg)"
    and "agent (calls w + k) msg = Inr result"
  shows "security_check U agent msg w =
     (Inr (str_lower U result = ''passed''),
      w\<lparr>calls := calls w + Suc k,
        trace := trace w @ concat (replicate k [Attempt SecurityCheck, Delay 5]) @
                 [Attempt SecurityCheck]\<rparr>)"
  unfolding security_check_def
  using run_task_agent_returns
          [where fn = "security_check_fn U agent msg" and f = "\<lambda>r. str_lower U r = ''passed''"
             and agent = agent and msg = msg and t = SecurityCheck and d = 5,
           OF security_check_fn_agent assms]
  by simp

lemma get_response_returns_after:
  assumes "k \<le> 3" and "\<forall>i<k. isl (agent (calls w + i) msg)"
    and "agent (calls w + k) msg = Inr result"
  shows "get_response agent msg w =
     (Inr result,
      w\<lparr>calls := calls w + Suc k,
        trace := trace w @ concat (replicate k [Attempt GetResponse, Delay 5]) @
                 [Attempt GetResponse]\<rparr>)"
  unfolding get_response_def
  using run_task_agent_returns
          [where fn = "get_response_fn agent msg" and f = id and agent = agent and msg = msg
             and t = GetResponse and d = 5,
           OF get_response_fn_agent assms]
  by simp

lemma security_check_raises_four:
  assumes "\<forall>i<4. isl (agent (calls w + i) msg)"
  shows "security_check U agent msg w =
     (Inl (projl (agent (calls w + 3) msg)),
      w\<lparr>calls := calls w + 4,
        trace := trace w @ [Attempt SecurityCheck, Delay 5, Attempt SecurityCheck, Delay 5,
                            Attempt SecurityCheck, Delay 5, Attempt SecurityCheck]\<rparr>)"
proof -
  have a: "\<forall>i\<le>3. isl (agent (calls w + i) msg)"
    using assms by simp
  show ?thesis
    unfolding security_check_def
    using run_task_agent_raises
            [where fn = "security_check_fn U agent msg" and f = "\<lambda>r. str_lower U r = ''passed''"
               and agent = agent and msg = msg and t = SecurityCheck and d = 5 and r = 3 and w = w,
             OF security_check_fn_agent a]
    by (simp add: numeral_3_eq_3)
qed

lemma get_response_raises_four:
  assumes "\<forall>i<4. isl (agent (calls w + i) msg)"
  shows "get_response agent msg w =
     (Inl (projl (agent (calls w + 3) msg)),
      w\<lparr>calls := calls w + 4,
        trace := trace w @ [Attempt GetResponse, Delay 5, Attempt GetResponse, Delay 5,
                            Attempt GetResponse, Delay 5, Attempt GetResponse]\<rparr>)"
proof -
  have a: "\<forall>i\<le>3. isl (agent (calls w + i) msg)"
    using assms by simp
  show ?thesis
    unfolding get_response_def
    using run_task_agent_raises
            [where fn = "get_response_fn agent msg" and f = id
               and agent = agent and msg = msg and t = GetResponse and d = 5 and r = 3 and w = w,
             OF get_response_fn_agent a]
    by (simp add: numeral_3_eq_3)
qed

lemma flow_rejects_after:
  assumes "k \<le> 3" and "\<forall>i<k. isl (agent (calls w + i) msg)"
    and "agent (calls w + k) msg = Inr result" and "str_lower U result \<noteq> ''passed''"
  shows "sequential_chat_processing_flow U agent msg w =
     (Inl (ValueError ''Security check failed''),
      w\<lparr>calls := calls w + Suc k,
        trace := trace w @ concat (replicate k [Attempt SecurityCheck, Delay 5]) @
                 [Attempt SecurityCheck]\<rparr>)"
  using assms(4)
  by (simp add: sequential_chat_processing_flow_def security_check_returns_after [of k agent w msg result U, OF assms(1-3)])

lemma flow_passes_after:
  assumes "k \<le> 3" and "\<forall>i<k. isl (agent (calls w + i) msg)"
    and "agent (calls w + k) msg = Inr result" and "str_lower U result = ''passed''"
  shows "sequential_chat_processing_flow U agent msg w =
     get_response agent msg
      (w\<lparr>calls := calls w + Suc k,
        trace := trace w @ concat (replicate k [Attempt SecurityCheck, Delay 5]) @
                 [Attempt SecurityCheck]\<rparr>)"
  using assms(4)
  by (simp add: sequential_chat_processing_flow_def security_check_returns_after [of k agent w msg result U, OF assms(1-3)])

subsection \<open>The result of the security check\<close>

text \<open>
  Claim C9. Whatever string the agent returns, the security check returns true exactly when
  the lower-cased string equals \<open>passed\<close>; for an ASCII string this is the comparison of
  its letter-by-letter lower-casing. So \<open>PASSED\<close> and \<open>PaSsEd\<close> pass, and every other
  string, expected or not, gives false.
\<close>

theorem security_check_case_insensitive:
  assumes "agent (calls w) msg = Inr result"
  shows "fst (security_check U agent msg w) = Inr (str_lower U result = ''passed'') \<and>
         (list_all is_ascii result \<longrightarrow>
            fst (security_check U agent msg w) = Inr (map lower_ascii result = ''passed''))"
  using assms by (simp add: security_check_returns str_lower_def)

theorem security_check_case_insensitive_witness:
  "always_returns ''PASSED'' (calls fresh) ''hello'' = Inr ''PASSED'' \<and>
   list_all is_ascii ''PASSED'' \<and>
   fst (security_check id (always_returns ''PASSED'') ''hello'' fresh) = Inr True \<and>
   fst (security_check id (always_returns ''PaSsEd'') ''hello'' fresh) = Inr True \<and>
   fst (security_check id (always_returns ''passed '') ''hello'' fresh) = Inr False \<and>
   fst (security_check id (always_returns ''unknown'') ''hello'' fresh) = Inr False"
  using security_check_case_insensitive [of "always_returns ''PASSED''" fresh "''hello''" "''PASSED''" id]
        security_check_case_insensitive [of "always_returns ''PaSsEd''" fresh "''hello''" "''PaSsEd''" id]
        security_check_case_insensitive [of "always_returns ''passed ''" fresh "''hello''" "''passed ''" id]
        security_check_case_insensitive [of "always_returns ''unknown''" fresh "''hello''" "''unknown''" id]
  by (simp add: always_returns_def is_ascii_def str_lower_def)

text \<open>
  Claim C1, as the code has it. On whichever attempt the agent returns a string, the check
  ends with that attempt and returns whether the lower-cased string equals \<open>passed\<close>. So
  \<open>passed\<close> written in any mixture of upper and lower case gives true, \<open>failed\<close> gives
  false, and every other string gives false as well: nothing is raised.
\<close>

theorem security_check_total_on_results:
  assumes "k \<le> 3" and "\<forall>i<k. isl (agent (calls w + i) msg)"
    and "agent (calls w + k) msg = Inr result"
  shows "security_check U agent msg w =
           (Inr (str_lower U result = ''passed''),
            w\<lparr>calls := calls w + Suc k,
              trace := trace w @ concat (replicate k [Attempt SecurityCheck, Delay 5]) @
                       [Attempt SecurityCheck]\<rparr>) \<and>
         (length result = 6 \<and> (\<forall>i<6. result ! i = ''passed'' ! i \<or> result ! i = ''PASSED'' ! i) \<longrightarrow>
            fst (security_check U agent msg w) = Inr True) \<and>
         (result = ''passed'' \<longrightarrow> fst (security_check U agent msg w) = Inr True) \<and>
         (result = ''failed'' \<longrightarrow> fst (security_check U agent msg w) = Inr False) \<and>
         (str_lower U result \<noteq> ''passed'' \<longrightarrow> fst (security_check U agent msg w) = Inr False) \<and>
         \<not> isl (fst (security_check U agent msg w))"
  unfolding security_check_returns_after [of k agent w msg result U, OF assms]
  by (simp add: str_lower_failed str_lower_passed str_lower_any_case)

theorem security_check_total_on_results_witness:
  "(0::nat) \<le> 3 \<and> always_returns ''PaSsEd'' (calls fresh + 0) ''hello'' = Inr ''PaSsEd'' \<and>
   length ''PaSsEd'' = 6 \<and>
   security_check id (always_returns ''PaSsEd'') ''hello'' fresh =
     (Inr True, \<lparr>calls = 1, trace = [Attempt SecurityCheck]\<rparr>) \<and>
   security_check id (always_returns ''passed'') ''hello'' fresh =
     (Inr True, \<lparr>calls = 1, trace = [Attempt SecurityCheck]\<rparr>) \<and>
   security_check id (always_returns ''failed'') ''hello'' fresh =
     (Inr False, \<lparr>calls = 1, trace = [Attempt SecurityCheck]\<rparr>) \<and>
   (1::nat) \<le> 3 \<and>
   isl (raises_then_returns 1 (Exception ''TimeoutError'' ''timed out'') ''maybe''
          (calls fresh + 0) ''hello'') \<and>
   raises_then_returns 1 (Exception ''TimeoutError'' ''timed out'') ''maybe'' (calls fresh + 1) ''hello'' =
     Inr ''maybe'' \<and>
   str_lower id ''maybe'' \<noteq> ''passed'' \<and>
   security_check id (raises_then_returns 1 (Exception ''TimeoutError'' ''timed out'') ''maybe'')
     ''hello'' fresh =
     (Inr False, \<lparr>calls = 2, trace = [Attempt SecurityCheck, Delay 5, Attempt SecurityCheck]\<rparr>)"
  using security_check_total_on_results [of 0 "always_returns ''PaSsEd''" fresh "''hello''" "''PaSsEd''" id]
        security_check_total_on_results [of 0 "always_returns ''passed''" fresh "''hello''" "''passed''" id]
        security_check_total_on_results [of 0 "always_returns ''failed''" fresh "''hello''" "''failed''" id]
        security_check_total_on_results
          [of 1 "raises_then_returns 1 (Exception ''TimeoutError'' ''timed out'') ''maybe''" fresh
              "''hello''" "''maybe''" id]
  by (simp add: always_returns_def raises_then_returns_def fresh_def str_lower_def is_ascii_def
      All_less_Suc eval_nat_numeral)

text \<open>
  The string \<open>maybe\<close> is neither \<open>passed\<close> nor \<open>failed\<close>; the check returns false after one
  attempt and no exception is raised.
\<close>

theorem security_check_unexpected_counterexample:
  "security_check id (always_returns ''maybe'') ''hello'' fresh =
     (Inr False, \<lparr>calls = 1, trace = [Attempt SecurityCheck]\<rparr>)"
  by (simp add: security_check_returns always_returns_def fresh_def str_lower_def is_ascii_def)

subsection \<open>Retries\<close>

text \<open>
  Claim C2, as the code has it. A task is run again after every exception of its body,
  whatever its class, with a pause of 5 seconds before each new attempt, until an attempt
  returns or 4 attempts have been made: if the first \<open>k \<le> 3\<close> calls of the agent raise and
  the next one returns, the task returns that result after \<open>k + 1\<close> attempts, and if the
  first 4 calls raise, the task raises the fourth exception and so does the flow. A security
  result other than \<open>passed\<close>, on whichever attempt it is received, ends the run: the flow
  raises \<open>ValueError("Security check failed")\<close> with no further attempt and without running
  the response task.
\<close>

theorem tasks_retry_on_every_exception:
  "(k \<le> 3 \<and> (\<forall>i<k. isl (agent (calls w + i) msg)) \<and> agent (calls w + k) msg = Inr result \<longrightarrow>
      security_check U agent msg w =
        (Inr (str_lower U result = ''passed''),
         w\<lparr>calls := calls w + Suc k,
           trace := trace w @ concat (replicate k [Attempt SecurityCheck, Delay 5]) @
                    [Attempt SecurityCheck]\<rparr>) \<and>
      get_response agent msg w =
        (Inr result,
         w\<lparr>calls := calls w + Suc k,
           trace := trace w @ concat (replicate k [Attempt GetResponse, Delay 5]) @
                    [Attempt GetResponse]\<rparr>) \<and>
      (str_lower U result \<noteq> ''passed'' \<longrightarrow>
         sequential_chat_processing_flow U agent msg w =
           (Inl (ValueError ''Security check failed''),
            w\<lparr>calls := calls w + Suc k,
              trace := trace w @ concat (replicate k [Attempt SecurityCheck, Delay 5]) @
                       [Attempt SecurityCheck]\<rparr>))) \<and>
   ((\<forall>i<4. isl (agent (calls w + i) msg)) \<longrightarrow>
      security_check U agent msg w =
        (Inl (projl (agent (calls w + 3) msg)),
         w\<lparr>calls := calls w + 4,
           trace := trace w @ [Attempt SecurityCheck, Delay 5, Attempt SecurityCheck, Delay 5,
                               Attempt SecurityCheck, Delay 5, Attempt SecurityCheck]\<rparr>) \<and>
      get_response agent msg w =
        (Inl (projl (agent (calls w + 3) msg)),
         w\<lparr>calls := calls w + 4,
           trace := trace w @ [Attempt GetResponse, Delay 5, Attempt GetResponse, Delay 5,
                               Attempt GetResponse, Delay 5, Attempt GetResponse]\<rparr>) \<and>
      sequential_chat_processing_flow U agent msg w =
        (Inl (projl (agent (calls w + 3) msg)),
         w\<lparr>calls := calls w + 4,
           trace := trace w @ [Attempt SecurityCheck, Delay 5, Attempt SecurityCheck, Delay 5,
                               Attempt SecurityCheck, Delay 5, Attempt SecurityCheck]\<rparr>)) \<and>
   attempts SecurityCheck (snd (security_check U agent msg w)) \<le> attempts SecurityCheck w + 4 \<and>
   attempts GetResponse (snd (get_response agent msg w)) \<le> attempts GetResponse w + 4"
proof (intro conjI impI)
  assume a: "k \<le> 3 \<and> (\<forall>i<k. isl (agent (calls w + i) msg)) \<and> agent (calls w + k) msg = Inr result"
  then have k: "k \<le> 3" and r: "\<forall>i<k. isl (agent (calls w + i) msg)"
    and l: "agent (calls w + k) msg = Inr result"
    by simp_all
  show "security_check U agent msg w =
        (Inr (str_lower U result = ''passed''),
         w\<lparr>calls := calls w + Suc k,
           trace := trace w @ concat (replicate k [Attempt SecurityCheck, Delay 5]) @
                    [Attempt SecurityCheck]\<rparr>)"
    using k r l by (rule security_check_returns_after)
  show "get_response agent msg w =
        (Inr result,
         w\<lparr>calls := calls w + Suc k,
           trace := trace w @ concat (replicate k [Attempt GetResponse, Delay 5]) @
                    [Attempt GetResponse]\<rparr>)"
    using k r l by (rule get_response_returns_after)
  assume "str_lower U result \<noteq> ''passed''"
  with k r l show "sequential_chat_processing_flow U agent msg w =
           (Inl (ValueError ''Security check failed''),
            w\<lparr>calls := calls w + Suc k,
              trace := trace w @ concat (replicate k [Attempt SecurityCheck, Delay 5]) @
                       [Attempt SecurityCheck]\<rparr>)"
    by (rule flow_rejects_after)
next
  assume a: "\<forall>i<4. isl (agent (calls w + i) msg)"
  show s: "security_check U agent msg w =
        (Inl (projl (agent (calls w + 3) msg)),
         w\<lparr>calls := calls w + 4,
           trace := trace w @ [Attempt SecurityCheck, Delay 5, Attempt SecurityCheck, Delay 5,
                               Attempt SecurityCheck, Delay 5, Attempt SecurityCheck]\<rparr>)"
    using a by (rule security_check_raises_four)
  show "get_response agent msg w =
        (Inl (projl (agent (calls w + 3) msg)),
         w\<lparr>calls := calls w + 4,
           trace := trace w @ [Attempt GetResponse, Delay 5, Attempt GetResponse, Delay 5,
                               Attempt GetResponse, Delay 5, Attempt GetResponse]\<rparr>)"
    using a by (rule get_response_raises_four)
  show "sequential_chat_processing_flow U agent msg w =
        (Inl (projl (agent (calls w + 3) msg)),
         w\<lparr>calls := calls w + 4,
           trace := trace w @ [Attempt SecurityCheck, Delay 5, Attempt SecurityCheck, Delay 5,
                               Attempt SecurityCheck, Delay 5, Attempt SecurityCheck]\<rparr>)"
    unfolding sequential_chat_processing_flow_def s by simp
next
  show "attempts SecurityCheck (snd (security_check U agent msg w)) \<le> attempts SecurityCheck w + 4"
    by (rule security_check_attempts_le)
  show "attempts GetResponse (snd (get_response agent msg w)) \<le> attempts GetResponse w + 4"
    by (rule get_response_attempts_le)
qed

theorem tasks_retry_on_every_exception_witness:
  "(2::nat) \<le> 3 \<and>
   isl (raises_then_returns 2 (Exception ''FatalInferenceError'' ''invalid api key'')
          ''passed'' (calls fresh + 0) ''hello'') \<and>
   isl (raises_then_returns 2 (Exception ''FatalInferenceError'' ''invalid api key'')
          ''passed'' (calls fresh + 1) ''hello'') \<and>
   raises_then_returns 2 (Exception ''FatalInferenceError'' ''invalid api key'') ''passed''
     (calls fresh + 2) ''hello'' = Inr ''passed'' \<and>
   security_check id
     (raises_then_returns 2 (Exception ''FatalInferenceError'' ''invalid api key'') ''passed'')
     ''hello'' fresh =
     (Inr True,
      \<lparr>calls = 3,
       trace = [Attempt SecurityCheck, Delay 5, Attempt SecurityCheck, Delay 5,
                Attempt SecurityCheck]\<rparr>) \<and>
   (3::nat) \<le> 3 \<and>
   isl (raises_then_returns 3 (Exception ''ValueError'' ''bad input'') ''failed''
          (calls fresh + 0) ''hello'') \<and>
   isl (raises_then_returns 3 (Exception ''ValueError'' ''bad input'') ''failed''
          (calls fresh + 1) ''hello'') \<and>
   isl (raises_then_returns 3 (Exception ''ValueError'' ''bad input'') ''failed''
          (calls fresh + 2) ''hello'') \<and>
   raises_then_returns 3 (Exception ''ValueError'' ''bad input'') ''failed''
     (calls fresh + 3) ''hello'' = Inr ''failed'' \<and>
   str_lower id ''failed'' \<noteq> ''passed'' \<and>
   sequential_chat_processing_flow id
     (raises_then_returns 3 (Exception ''ValueError'' ''bad input'') ''failed'') ''hello'' fresh =
     (Inl (ValueError ''Security check failed''),
      \<lparr>calls = 4,
       trace = [Attempt SecurityCheck, Delay 5, Attempt SecurityCheck, Delay 5,
                Attempt SecurityCheck, Delay 5, Attempt SecurityCheck]\<rparr>) \<and>
   (\<forall>i. isl (always_raises (Exception ''FatalInferenceError'' ''invalid api key'')
               (calls fresh + i) ''hello'')) \<and>
   get_response (always_raises (Exception ''FatalInferenceError'' ''invalid api key'')) ''hello'' fresh =
     (Inl (Exception ''FatalInferenceError'' ''invalid api key''),
      \<lparr>calls = 4,
       trace = [Attempt GetResponse, Delay 5, Attempt GetResponse, Delay 5,
                Attempt GetResponse, Delay 5, Attempt GetResponse]\<rparr>)"
  using tasks_retry_on_every_exception
          [of 2 "raises_then_returns 2 (Exception ''FatalInferenceError'' ''invalid api key'') ''passed''"
              fresh "''hello''" "''passed''" id]
        tasks_retry_on_every_exception
          [of 3 "raises_then_returns 3 (Exception ''ValueError'' ''bad input'') ''failed''"
              fresh "''hello''" "''failed''" id]
        tasks_retry_on_every_exception
          [of 0 "always_raises (Exception ''FatalInferenceError'' ''invalid api key'')"
              fresh "''hello''" "''x''" id]
  by (simp add: raises_then_returns_def always_raises_def fresh_def str_lower_def is_ascii_def
      All_less_Suc eval_nat_numeral)

text \<open>
  An agent that raises an exception named \<open>FatalInferenceError\<close> at every call: the security
  task is attempted four times, with three pauses, before the run fails.
\<close>

theorem fatal_error_is_retried_counterexample:
  "sequential_chat_processing_flow id
     (always_raises (Exception ''FatalInferenceError'' ''invalid api key'')) ''hello'' fresh =
     (Inl (Exception ''FatalInferenceError'' ''invalid api key''),
      \<lparr>calls = 4,
       trace = [Attempt SecurityCheck, Delay 5, Attempt SecurityCheck, Delay 5,
                Attempt SecurityCheck, Delay 5, Attempt SecurityCheck]\<rparr>)"
  by (simp add: flow_all_raise always_raises_def fresh_def)

text \<open>
  Claim C4, as the code has it. When the agent raises at every call, a task decorated with
  \<open>retries=3\<close> fails after exactly 4 attempts (the first one and 3 retries) separated by
  pauses of 5 seconds, and raises the exception of the fourth attempt.
\<close>

theorem always_raising_task_fails_after_four_attempts:
  assumes "\<forall>n. isl (agent n msg)"
  shows "security_check U agent msg w =
           (Inl (projl (agent (calls w + 3) msg)),
            w\<lparr>calls := calls w + 4,
              trace := trace w @
                [Attempt SecurityCheck, Delay 5, Attempt SecurityCheck, Delay 5,
                 Attempt SecurityCheck, Delay 5, Attempt SecurityCheck]\<rparr>) \<and>
         attempts SecurityCheck (snd (security_check U agent msg w)) =
           attempts SecurityCheck w + 4 \<and>
         get_response agent msg w =
           (Inl (projl (agent (calls w + 3) msg)),
            w\<lparr>calls := calls w + 4,
              trace := trace w @
                [Attempt GetResponse, Delay 5, Attempt GetResponse, Delay 5,
                 Attempt GetResponse, Delay 5, Attempt GetResponse]\<rparr>) \<and>
         attempts GetResponse (snd (get_response agent msg w)) = attempts GetResponse w + 4"
  using assms
  by (simp add: security_check_all_raise get_response_all_raise attempts_def)

theorem always_raising_task_fails_after_four_attempts_witness:
  "(\<forall>n. isl (always_raises (Exception ''TransientInferenceError'' ''timed out'') n ''hello'')) \<and>
   fst (security_check id (always_raises (Exception ''TransientInferenceError'' ''timed out''))
          ''hello'' fresh) = Inl (Exception ''TransientInferenceError'' ''timed out'') \<and>
   attempts SecurityCheck
     (snd (security_check id (always_raises (Exception ''TransientInferenceError'' ''timed out''))
          ''hello'' fresh)) = 4 \<and>
   attempts GetResponse
     (snd (get_response (always_raises (Exception ''TransientInferenceError'' ''timed out''))
          ''hello'' fresh)) = 4"
  using always_raising_task_fails_after_four_attempts
          [of "always_raises (Exception ''TransientInferenceError'' ''timed out'')" "''hello''" id fresh]
  by (simp add: always_raises_def fresh_def attempts_def)

text \<open>
  An agent that raises an exception named \<open>TransientInferenceError\<close> at every call: the
  security task fails after 4 attempts, not 3.
\<close>

theorem three_retries_are_four_attempts_counterexample:
  "isl (fst (security_check id
       (always_raises (Exception ''TransientInferenceError'' ''timed out'')) ''hello'' fresh)) \<and>
   attempts SecurityCheck (snd (security_check id
       (always_raises (Exception ''TransientInferenceError'' ''timed out'')) ''hello'' fresh)) = 4"
  by (simp add: security_check_all_raise always_raises_def fresh_def attempts_def)

subsection \<open>Rejection by the security check\<close>

text \<open>
  Claim C3. When the agent answers \<open>failed\<close> at every call, the flow fails with
  \<open>ValueError("Security check failed")\<close>, the error by which the code reports a rejected
  message; the response task is not attempted (the number of its attempts is unchanged, so 0
  in a fresh run), and the agent has been called exactly once, by the security check.
\<close>

theorem flow_security_failed_skips_response:
  assumes "\<forall>n. agent n message = Inr ''failed''"
  shows "fst (sequential_chat_processing_flow U agent message w) =
           Inl (ValueError ''Security check failed'') \<and>
         attempts GetResponse (snd (sequential_chat_processing_flow U agent message w)) =
           attempts GetResponse w \<and>
         attempts SecurityCheck (snd (sequential_chat_processing_flow U agent message w)) =
           Suc (attempts SecurityCheck w) \<and>
         calls (snd (sequential_chat_processing_flow U agent message w)) = Suc (calls w)"
proof -
  have "agent (calls w) message = Inr ''failed''"
    using assms by simp
  then have "sequential_chat_processing_flow U agent message w =
     (Inl (ValueError ''Security check failed''),
      w\<lparr>calls := Suc (calls w), trace := trace w @ [Attempt SecurityCheck]\<rparr>)"
    using str_lower_failed by (rule flow_rejects)
  then show ?thesis
    by (simp add: attempts_def)
qed

theorem flow_security_failed_skips_response_witness:
  "(\<forall>n. always_returns ''failed'' n ''hello'' = Inr ''failed'') \<and>
   fst (sequential_chat_processing_flow id (always_returns ''failed'') ''hello'' fresh) =
     Inl (ValueError ''Security check failed'') \<and>
   attempts GetResponse
     (snd (sequential_chat_processing_flow id (always_returns ''failed'') ''hello'' fresh)) = 0"
  using flow_security_failed_skips_response [of "always_returns ''failed''" "''hello''" id fresh]
  by (simp add: always_returns_def fresh_def attempts_def)


section \<open>Properties of the configuration\<close>

subsection \<open>Attributes of a metadata object\<close>

lemma hasattr_field: "key \<in> set metadata_fields \<Longrightarrow> hasattr B md key"
  by (simp add: hasattr_def)

lemma setattr_field: "key \<in> set metadata_fields \<Longrightarrow> setattr B md key v = Inr (set_field key v md)"
  by (simp add: setattr_def)

lemma get_set_field_same:
  "key \<in> set metadata_fields \<Longrightarrow> get_field key (set_field key v md) = Some v"
  by (auto simp add: metadata_fields_def get_field_def set_field_def)

lemma get_set_field_other:
  "key \<noteq> key' \<Longrightarrow> get_field key (set_field key' v md) = get_field key md"
  by (auto simp add: get_field_def set_field_def)

lemma get_field_fold:
  "distinct (map fst kwargs) \<Longrightarrow> (key, v) \<in> set kwargs \<Longrightarrow>
   list_all (\<lambda>kv. fst kv \<in> set metadata_fields) kwargs \<Longrightarrow>
   get_field key (fold (\<lambda>kv. set_field (fst kv) (snd kv)) kwargs md) = Some v"
proof (induction kwargs arbitrary: md)
  case Nil
  then show ?case by simp
next
  case (Cons kv kwargs)
  show ?case
  proof (cases "(key, v) \<in> set kwargs")
    case True
    then show ?thesis using Cons by simp
  next
    case False
    then have kv: "kv = (key, v)" using Cons.prems(2) by simp
    have notin: "key \<notin> fst ` set kwargs" using Cons.prems(1) kv by simp
    have keep: "\<And>md'. get_field key (fold (\<lambda>kv. set_field (fst kv) (snd kv)) kwargs md') = get_field key md'"
      using notin
    proof (induction kwargs)
      case Nil
      show ?case by simp
    next
      case (Cons x xs)
      have "key \<noteq> fst x" using Cons.prems by auto
      then show ?case using Cons by (simp add: get_set_field_other)
    qed
    show ?thesis
      using Cons.prems(3) kv by (simp add: keep get_set_field_same)
  qed
qed

subsection \<open>The update loop\<close>

lemma update_metadata_loop_fields:
  "list_all (\<lambda>kv. fst kv \<in> set metadata_fields) kwargs \<Longrightarrow>
   update_metadata_loop B a kwargs h =
     (Inr (), h(a := fold (\<lambda>kv. set_field (fst kv) (snd kv)) kwargs (h a)))"
proof (induction kwargs arbitrary: h)
  case Nil
  show ?case by simp
next
  case (Cons kv kwargs)
  obtain key v where kv: "kv = (key, v)" by (cases kv)
  have k: "key \<in> set metadata_fields" and rest: "list_all (\<lambda>kv. fst kv \<in> set metadata_fields) kwargs"
    using Cons.prems kv by simp_all
  show ?case
    using k kv by (simp add: hasattr_field setattr_field Cons.IH [OF rest] fun_eq_iff)
qed

lemma update_metadata_loop_append:
  "update_metadata_loop B a pre h = (Inr (), h') \<Longrightarrow>
   update_metadata_loop B a (pre @ kwargs) h = update_metadata_loop B a kwargs h'"
proof (induction pre arbitrary: h)
  case Nil
  then show ?case by simp
next
  case (Cons kv pre)
  obtain key v where kv: "kv = (key, v)" by (cases kv)
  show ?case
    using Cons.prems Cons.IH kv
    by (auto split: if_splits sum.splits)
qed

lemma update_metadata_loop_invalid:
  assumes "list_all (\<lambda>kv. fst kv \<in> set metadata_fields) pre"
    and "\<not> hasattr B md key"
  shows "update_metadata_loop B a (pre @ (key, v) # rest) h =
     (Inl (ValueError (''Invalid metadata field: '' @ key)),
      h(a := fold (\<lambda>kv. set_field (fst kv) (snd kv)) pre (h a)))"
proof -
  have n: "\<And>md'. \<not> hasattr B md' key"
    using assms(2) by (simp add: hasattr_def)
  have "update_metadata_loop B a (pre @ (key, v) # rest) h =
        update_metadata_loop B a ((key, v) # rest)
          (h(a := fold (\<lambda>kv. set_field (fst kv) (snd kv)) pre (h a)))"
    using update_metadata_loop_fields [OF assms(1)]
    by (rule update_metadata_loop_append)
  then show ?thesis
    by (simp add: n)
qed

lemma update_metadata_loop_rejected:
  assumes "(key, v) \<in> set kwargs" and "key \<notin> set metadata_fields"
    and "base_hasattr B key \<longrightarrow> (\<forall>x md. isl (base_setattr B key x md))"
  shows "isl (fst (update_metadata_loop B a kwargs h))"
  using assms(1)
proof (induction kwargs arbitrary: h)
  case Nil
  then show ?case by simp
next
  case (Cons kv kwargs)
  obtain key' v' where kv: "kv = (key', v')" by (cases kv)
  show ?case
  proof (cases "hasattr B (h a) key'")
    case False
    then show ?thesis using kv by simp
  next
    case True
    show ?thesis
    proof (cases "key' = key")
      case same: True
      have "base_hasattr B key"
        using True same assms(2) by (simp add: hasattr_def)
      then have "isl (base_setattr B key v' (h a))"
        using assms(3) by simp
      then have "isl (setattr B (h a) key' v')"
        using same assms(2) by (simp add: setattr_def)
      then show ?thesis
        using kv True by (auto simp add: isl_def)
    next
      case False
      then have "(key, v) \<in> set kwargs" using Cons.prems kv by auto
      then have "\<And>h'. isl (fst (update_metadata_loop B a kwargs h'))"
        using Cons.IH by simp
      then show ?thesis using kv True by (simp split: sum.splits)
    qed
  qed
qed

subsection \<open>The reference held by a \<open>Management\<close> object\<close>

lemma get_metadata_init: "get_metadata (Management_init md) = md"
  by (simp add: get_metadata_def Management_init_def)

lemma get_set_metadata: "get_metadata (set_metadata self md) = md"
  by (simp add: get_metadata_def set_metadata_def)

subsection \<open>Updating fields by name\<close>

text \<open>
  A call of \<open>update_metadata\<close> whose keywords are all declared fields succeeds and leaves
  each named field with the value given for it. When a name is no attribute at all and only
  declared fields precede it, the call raises the \<open>ValueError\<close> of the loop,
  \<open>Invalid metadata field: <name>\<close>. For a name that is not a declared field but that the
  base class supplies, the loop makes the assignment, and the call raises only if pydantic
  rejects it.
\<close>

lemma update_metadata_allow_list:
  "(list_all (\<lambda>kv. fst kv \<in> set metadata_fields) kwargs \<and> distinct (map fst kwargs) \<and>
    (key, v) \<in> set kwargs \<longrightarrow>
      fst (update_metadata B self kwargs h) = Inr () \<and>
      get_field key (snd (snd (update_metadata B self kwargs h)) (metadata self)) = Some v) \<and>
   ((key, v) \<in> set kwargs \<and> key \<notin> set metadata_fields \<and>
    (base_hasattr B key \<longrightarrow> (\<forall>x md. isl (base_setattr B key x md))) \<longrightarrow>
      isl (fst (update_metadata B self kwargs h))) \<and>
   (list_all (\<lambda>kv. fst kv \<in> set metadata_fields) pre \<and> \<not> hasattr B (h (metadata self)) key \<longrightarrow>
      fst (update_metadata B self (pre @ (key, v) # rest) h) =
        Inl (ValueError (''Invalid metadata field: '' @ key)))"
proof (intro conjI impI)
  assume a: "list_all (\<lambda>kv. fst kv \<in> set metadata_fields) kwargs \<and> distinct (map fst kwargs) \<and>
    (key, v) \<in> set kwargs"
  then show "fst (update_metadata B self kwargs h) = Inr ()"
    by (simp add: update_metadata_def update_metadata_loop_fields)
  from a show "get_field key (snd (snd (update_metadata B self kwargs h)) (metadata self)) = Some v"
    by (simp add: update_metadata_def update_metadata_loop_fields get_field_fold)
next
  assume "(key, v) \<in> set kwargs \<and> key \<notin> set metadata_fields \<and>
    (base_hasattr B key \<longrightarrow> (\<forall>x md. isl (base_setattr B key x md)))"
  then have "isl (fst (update_metadata_loop B (metadata self) kwargs h))"
    using update_metadata_loop_rejected by blast
  then show "isl (fst (update_metadata B self kwargs h))"
    by (simp add: update_metadata_def split_beta)
next
  assume "list_all (\<lambda>kv. fst kv \<in> set metadata_fields) pre \<and> \<not> hasattr B (h (metadata self)) key"
  then have p: "list_all (\<lambda>kv. fst kv \<in> set metadata_fields) pre"
    and n: "\<not> hasattr B (h (metadata self)) key"
    by simp_all
  show "fst (update_metadata B self (pre @ (key, v) # rest) h) =
        Inl (ValueError (''Invalid metadata field: '' @ key))"
    unfolding update_metadata_def update_metadata_loop_invalid [OF p n] by simp
qed

lemma update_metadata_allow_list_examples:
  "list_all (\<lambda>kv. fst kv \<in> set metadata_fields)
     [(''temperature'', PFloat 1), (''max_tokens'', PInt 2048)] \<and>
   distinct (map fst [(''temperature'', PFloat 1), (''max_tokens'', PInt 2048)]) \<and>
   fst (update_metadata example_base (Management_init 0)
          [(''temperature'', PFloat 1), (''max_tokens'', PInt 2048)]
          (every_address example_metadata)) = Inr () \<and>
   get_field ''max_tokens''
     (snd (snd (update_metadata example_base (Management_init 0)
          [(''temperature'', PFloat 1), (''max_tokens'', PInt 2048)]
          (every_address example_metadata))) (metadata (Management_init 0))) = Some (PInt 2048) \<and>
   \<not> hasattr example_base (every_address example_metadata (metadata (Management_init 0))) ''colour'' \<and>
   fst (update_metadata example_base (Management_init 0)
          [(''temperature'', PFloat 1), (''colour'', PStr ''red'')]
          (every_address example_metadata)) = Inl (ValueError ''Invalid metadata field: colour'') \<and>
   ''model_dump'' \<notin> set metadata_fields \<and> base_hasattr example_base ''model_dump'' \<and>
   (\<forall>x md. isl (base_setattr example_base ''model_dump'' x md)) \<and>
   isl (fst (update_metadata example_base (Management_init 0)
          [(''temperature'', PFloat 1), (''model_dump'', PInt 1)]
          (every_address example_metadata)))"
  using update_metadata_allow_list
          [of "[(''temperature'', PFloat 1), (''max_tokens'', PInt 2048)]" "''max_tokens''" "PInt 2048"
              example_base "Management_init 0" "every_address example_metadata"
              "[(''temperature'', PFloat 1)]" ]
        update_metadata_allow_list
          [of "[(''temperature'', PFloat 1), (''colour'', PStr ''red'')]" "''colour''" "PStr ''red''"
              example_base "Management_init 0" "every_address example_metadata"
              "[(''temperature'', PFloat 1)]" "[]"]
        update_metadata_allow_list
          [of "[(''temperature'', PFloat 1), (''model_dump'', PInt 1)]" "''model_dump''" "PInt 1"
              example_base "Management_init 0" "every_address example_metadata" "[]" "[]"]
  by (simp add: metadata_fields_def hasattr_def example_base_def)

text \<open>
  Claim C6 at the keyword \<open>__doc__\<close>. The name is not a declared field of \<open>Metadata\<close>, yet
  \<open>hasattr\<close> holds for it, so the loop assigns instead of raising
  \<open>Invalid metadata field\<close>; pydantic stores the name without complaint, and the call returns
  normally with every declared field unchanged.
\<close>

theorem update_metadata_accepts_dunder_name:
  "''__doc__'' \<notin> set metadata_fields \<and>
   hasattr example_base (every_address example_metadata (metadata (Management_init 0))) ''__doc__'' \<and>
   update_metadata example_base (Management_init 0) [(''__doc__'', PStr ''x'')]
     (every_address example_metadata) =
     (Inr (), Management_init 0, every_address example_metadata)"
  by (simp add: metadata_fields_def hasattr_def setattr_def example_base_def update_metadata_def
      Management_init_def fun_eq_iff)

text \<open>
  Claim C10. When declared fields are followed by a name that is no attribute, the call
  raises the \<open>ValueError\<close> for that name, and the store then holds, at the address the
  \<open>Management\<close> object still refers to, the old object with every preceding assignment
  applied (each of those fields has its new value); the keywords after the bad name are not
  applied, no other address changes and the reference is not replaced.
\<close>

theorem update_metadata_not_atomic:
  assumes "list_all (\<lambda>kv. fst kv \<in> set metadata_fields) pre"
    and "\<not> hasattr B (h (metadata self)) key"
  shows "update_metadata B self (pre @ (key, v) # rest) h =
           (Inl (ValueError (''Invalid metadata field: '' @ key)), self,
            h(metadata self := fold (\<lambda>kv. set_field (fst kv) (snd kv)) pre (h (metadata self)))) \<and>
         (distinct (map fst pre) \<longrightarrow>
            list_all (\<lambda>kv. get_field (fst kv)
                (fold (\<lambda>kv. set_field (fst kv) (snd kv)) pre (h (metadata self))) = Some (snd kv)) pre)"
proof
  show "update_metadata B self (pre @ (key, v) # rest) h =
           (Inl (ValueError (''Invalid metadata field: '' @ key)), self,
            h(metadata self := fold (\<lambda>kv. set_field (fst kv) (snd kv)) pre (h (metadata self))))"
    unfolding update_metadata_def update_metadata_loop_invalid [OF assms] by simp
  show "distinct (map fst pre) \<longrightarrow>
            list_all (\<lambda>kv. get_field (fst kv)
                (fold (\<lambda>kv. set_field (fst kv) (snd kv)) pre (h (metadata self))) = Some (snd kv)) pre"
  proof
    assume d: "distinct (map fst pre)"
    have "\<And>kv. kv \<in> set pre \<Longrightarrow> get_field (fst kv)
                (fold (\<lambda>kv. set_field (fst kv) (snd kv)) pre (h (metadata self))) = Some (snd kv)"
      using get_field_fold [OF d _ assms(1)] by simp
    then show "list_all (\<lambda>kv. get_field (fst kv)
                (fold (\<lambda>kv. set_field (fst kv) (snd kv)) pre (h (metadata self))) = Some (snd kv)) pre"
      by (simp add: list_all_iff)
  qed
qed

theorem update_metadata_not_atomic_witness:
  "list_all (\<lambda>kv. fst kv \<in> set metadata_fields)
     [(''temperature'', PFloat 1), (''max_tokens'', PInt 2048)] \<and>
   \<not> hasattr example_base (every_address example_metadata (metadata (Management_init 0))) ''colour'' \<and>
   update_metadata example_base (Management_init 0)
     ([(''temperature'', PFloat 1), (''max_tokens'', PInt 2048)] @
      (''colour'', PStr ''red'') # [(''model'', PStr ''other'')])
     (every_address example_metadata) =
     (Inl (ValueError ''Invalid metadata field: colour''), Management_init 0,
      (every_address example_metadata)
        (0 := example_metadata\<lparr>temperature := PFloat 1, max_tokens := PInt 2048\<rparr>))"
  using update_metadata_not_atomic
          [of "[(''temperature'', PFloat 1), (''max_tokens'', PInt 2048)]"
              example_base "every_address example_metadata" "Management_init 0" "''colour''"
              "PStr ''red''" "[(''model'', PStr ''other'')]"]
  by (simp add: metadata_fields_def hasattr_def example_base_def Management_init_def
      set_field_def every_address_def)

subsection \<open>Binding the language model\<close>

lemma provider_value_supported: "provider_value p \<in> set provider_values"
  by (cases p) (simp_all add: provider_values_def)

lemma get_lm_enum:
  "provider (h (metadata self)) = PProvider p \<Longrightarrow>
   get_lm LM self h =
     LM \<lparr>lm_model = model (h (metadata self)), lm_max_tokens = max_tokens (h (metadata self)),
         lm_temperature = temperature (h (metadata self)), lm_provider = provider_value p,
         lm_api_key = api_key (h (metadata self)), lm_base_url = base_url (h (metadata self))\<rparr>"
  by (simp add: get_lm_def Let_def)

lemma get_lm_not_enum:
  "\<forall>p. provider (h (metadata self)) \<noteq> PProvider p \<Longrightarrow>
   get_lm LM self h = Inl (AttributeError ''value'')"
  by (simp add: get_lm_def Let_def split: pyval.splits)

text \<open>
  \<open>get_lm\<close> checks nothing itself. When the provider field holds a member of
  \<open>ProviderType\<close>, whose value is always one of the twelve supported strings, the outcome is
  exactly the outcome of the \<open>dspy.LM\<close> constructor on the fields passed on, whatever the
  model string is; when the provider field holds anything else, reading \<open>.value\<close> raises
  \<open>AttributeError\<close>. Whether an empty model is refused is therefore decided by the
  constructor alone.
\<close>

lemma get_lm_forwards_to_constructor:
  "(provider (h (metadata self)) = PProvider p \<longrightarrow>
      get_lm LM self h =
        LM \<lparr>lm_model = model (h (metadata self)), lm_max_tokens = max_tokens (h (metadata self)),
            lm_temperature = temperature (h (metadata self)), lm_provider = provider_value p,
            lm_api_key = api_key (h (metadata self)), lm_base_url = base_url (h (metadata self))\<rparr> \<and>
      provider_value p \<in> set provider_values) \<and>
   ((\<forall>q. provider (h (metadata self)) \<noteq> PProvider q) \<longrightarrow>
      get_lm LM self h = Inl (AttributeError ''value''))"
  by (simp add: get_lm_enum get_lm_not_enum provider_value_supported)

lemma get_lm_forwards_to_constructor_examples:
  "provider (every_address example_metadata (metadata (Management_init 0))) = PProvider OPENAI \<and>
   get_lm example_LM (Management_init 0) (every_address example_metadata) =
     Inr \<lparr>lm_model = PStr ''openai/gpt-4o-mini'', lm_max_tokens = PInt 1024,
          lm_temperature = PFloat 0, lm_provider = ''openai'', lm_api_key = PNone,
          lm_base_url = PNone\<rparr> \<and>
   (\<forall>q. provider (every_address (example_metadata\<lparr>provider := PStr ''openai''\<rparr>)
           (metadata (Management_init 0))) \<noteq> PProvider q) \<and>
   get_lm example_LM (Management_init 0)
     (every_address (example_metadata\<lparr>provider := PStr ''openai''\<rparr>)) =
     Inl (AttributeError ''value'')"
  using get_lm_forwards_to_constructor
          [of "every_address example_metadata" "Management_init 0" OPENAI example_LM]
        get_lm_forwards_to_constructor
          [of "every_address (example_metadata\<lparr>provider := PStr ''openai''\<rparr>)" "Management_init 0"
              OPENAI example_LM]
  by (simp add: every_address_def example_metadata_def example_LM_def)

section \<open>Properties of the agents\<close>

text \<open>The security agent has a single stage, so the covering property holds of it trivially.\<close>

lemma SecurityAgent_single_stage: "outputs_cover_next_inputs SecurityAgent_stages"
  by (simp add: SecurityAgent_stages_def)

lemma BaseAgent_wiring:
  "wiring_ok [ChainOfThought ReasoningNode, ChainOfThought EnhanceQueryNode, Predict QANode]
     forward_calls forward_result"
  by (simp add: wiring_ok_def forward_calls_def forward_result_def call_ok_def
      declared_inputs_def declared_outputs_def ReasoningNode_def EnhanceQueryNode_def QANode_def
      upt_rec numeral_2_eq_2 numeral_3_eq_3)

text \<open>
  Claim C5, as the code has it. Constructing a \<open>BaseAgent\<close> compares no fields: it fails
  exactly when \<open>get_lm\<close> fails, and otherwise yields the stages \<open>ReasoningNode\<close>,
  \<open>EnhanceQueryNode\<close>, \<open>QANode\<close>. What holds of these is that \<open>forward\<close> passes to each
  stage exactly its declared inputs, each taken from the caller's query or from a declared
  output of an earlier stage, and returns a declared output of the last stage.
\<close>

theorem BaseAgent_init_checks_no_fields:
  "isl (BaseAgent_init LM md h) = isl (get_lm LM (Management_init md) h) \<and>
   (BaseAgent_init LM md h = Inr ag \<longrightarrow>
      stages ag = [ChainOfThought ReasoningNode, ChainOfThought EnhanceQueryNode, Predict QANode] \<and>
      wiring_ok (stages ag) forward_calls forward_result)"
proof
  show "isl (BaseAgent_init LM md h) = isl (get_lm LM (Management_init md) h)"
    by (simp add: BaseAgent_init_def split: sum.splits)
  show "BaseAgent_init LM md h = Inr ag \<longrightarrow>
      stages ag = [ChainOfThought ReasoningNode, ChainOfThought EnhanceQueryNode, Predict QANode] \<and>
      wiring_ok (stages ag) forward_calls forward_result"
  proof
    assume "BaseAgent_init LM md h = Inr ag"
    then have "stages ag =
        [ChainOfThought ReasoningNode, ChainOfThought EnhanceQueryNode, Predict QANode]"
      by (auto simp add: BaseAgent_init_def stages_def split: sum.splits)
    then show "stages ag =
        [ChainOfThought ReasoningNode, ChainOfThought EnhanceQueryNode, Predict QANode] \<and>
      wiring_ok (stages ag) forward_calls forward_result"
      by (simp add: BaseAgent_wiring)
  qed
qed

theorem BaseAgent_init_checks_no_fields_witness:
  "BaseAgent_init example_LM 0 (every_address example_metadata) =
     Inr \<lparr>agent_metadata = 0,
          lm = \<lparr>lm_model = PStr ''openai/gpt-4o-mini'', lm_max_tokens = PInt 1024,
                lm_temperature = PFloat 0, lm_provider = ''openai'', lm_api_key = PNone,
                lm_base_url = PNone\<rparr>,
          reasoner = ChainOfThought ReasoningNode,
          enhance_query = ChainOfThought EnhanceQueryNode,
          get_answer = Predict QANode\<rparr> \<and>
   wiring_ok
     (stages \<lparr>agent_metadata = 0,
          lm = \<lparr>lm_model = PStr ''openai/gpt-4o-mini'', lm_max_tokens = PInt 1024,
                lm_temperature = PFloat 0, lm_provider = ''openai'', lm_api_key = PNone,
                lm_base_url = PNone\<rparr>,
          reasoner = ChainOfThought ReasoningNode,
          enhance_query = ChainOfThought EnhanceQueryNode,
          get_answer = Predict QANode\<rparr>) forward_calls forward_result"
  using BaseAgent_init_checks_no_fields
          [of example_LM 0 "every_address example_metadata"
              "\<lparr>agent_metadata = 0,
                lm = \<lparr>lm_model = PStr ''openai/gpt-4o-mini'', lm_max_tokens = PInt 1024,
                      lm_temperature = PFloat 0, lm_provider = ''openai'', lm_api_key = PNone,
                      lm_base_url = PNone\<rparr>,
                reasoner = ChainOfThought ReasoningNode,
                enhance_query = ChainOfThought EnhanceQueryNode,
                get_answer = Predict QANode\<rparr>"]
  by (simp add: BaseAgent_init_def get_lm_def Management_init_def every_address_def
      example_metadata_def example_LM_def stages_def)

text \<open>
  A \<open>BaseAgent\<close> is constructed without error, although \<open>EnhanceQueryNode\<close> declares the
  input \<open>query\<close>, which \<open>ReasoningNode\<close> does not output, and \<open>QANode\<close> declares
  \<open>question\<close> and \<open>context\<close>, which \<open>EnhanceQueryNode\<close> does not output. The stage
  sequences of the other agents with more than one stage fail the property in the same way.
\<close>

theorem BaseAgent_outputs_do_not_cover_counterexample:
  "map_sum id stages (BaseAgent_init example_LM 0 (every_address example_metadata)) =
     Inr [ChainOfThought ReasoningNode, ChainOfThought EnhanceQueryNode, Predict QANode] \<and>
   \<not> outputs_cover_next_inputs
       [ChainOfThought ReasoningNode, ChainOfThought EnhanceQueryNode, Predict QANode] \<and>
   \<not> outputs_cover_next_inputs MathAgent_stages \<and>
   \<not> outputs_cover_next_inputs MentorAgent_stages \<and>
   \<not> outputs_cover_next_inputs CreativeAgent_stages \<and>
   \<not> outputs_cover_next_inputs AdvisorAgent_stages \<and>
   \<not> outputs_cover_next_inputs Researcher_stages"
  by (simp add: BaseAgent_init_def get_lm_def Management_init_def every_address_def
      example_metadata_def example_LM_def stages_def declared_inputs_def declared_outputs_def
      ReasoningNode_def EnhanceQueryNode_def QANode_def MathNode_def MentorNode_def
      CreativeNode_def AdvisorNode_def MathAgent_stages_def MentorAgent_stages_def
      CreativeAgent_stages_def AdvisorAgent_stages_def Researcher_stages_def)

end
